theory Spec2Isabelle
  imports Main
begin

section \<open>The access-log exporter: label resolution and metric dispatch\<close>

text \<open>
  A shallow embedding of \<^verbatim>\<open>main.go\<close>: \<^verbatim>\<open>Metrics.Init\<close> (the label schema under
  which the six metric vectors are created) and the per-file ingestor of \<^verbatim>\<open>main\<close>
  (the set-up of the label buffer and the loop over the tailed lines).

  The ingestor keeps one slice \<^verbatim>\<open>labelValues\<close> for all lines; it is state, threaded
  through the loop. A Go run-time panic (an index out of range) is a value of type
  \<open>panic\<close>; every slice access of the source goes through a checked read or write.
\<close>

subsection \<open>Panics and checked slice access\<close>

datatype panic = IndexOutOfRange | CompileFailed

definition bindE :: "panic + 'a \<Rightarrow> ('a \<Rightarrow> panic + 'b) \<Rightarrow> panic + 'b" where
  "bindE m k = (case m of Inl p \<Rightarrow> Inl p | Inr x \<Rightarrow> k x)"

text \<open>\<^verbatim>\<open>xs[i]\<close> as an expression and \<^verbatim>\<open>xs[i] = v\<close> as a statement.\<close>

definition index_at :: "'a list \<Rightarrow> nat \<Rightarrow> panic + 'a" where
  "index_at xs i = (if i < length xs then Inr (xs ! i) else Inl IndexOutOfRange)"

definition store_at :: "'a list \<Rightarrow> nat \<Rightarrow> 'a \<Rightarrow> panic + 'a list" where
  "store_at xs i v = (if i < length xs then Inr (xs[i := v]) else Inl IndexOutOfRange)"

subsection \<open>Configuration\<close>

text \<open>
  The fields of \<^verbatim>\<open>config.NamespaceConfig\<close> and \<^verbatim>\<open>config.RelabelConfig\<close> that
  \<^verbatim>\<open>main.go\<close> reads. A compiled regular expression is used through \<^verbatim>\<open>MatchString\<close>
  only, so it is the predicate on strings that \<^verbatim>\<open>MatchString\<close> computes. The
  whitelist \<^verbatim>\<open>WhitelistMap\<close> is used through key lookup only.
\<close>

type_synonym regexp = "string \<Rightarrow> bool"

record RelabelConfig =
  TargetLabel :: string
  SourceValue :: string
  WhitelistExists :: bool
  WhitelistMap :: "string \<rightharpoonup> unit"

record NamespaceConfig =
  Name :: string
  Format :: string
  SourceFiles :: "string list"
  OrderedLabelNames :: "string list"
  OrderedLabelValues :: "string list"
  RelabelConfigs :: "RelabelConfig list"
  Routes :: "string list"
  CompiledRouteRegexps :: "regexp list"

text \<open>
  Modelled from the spec: \<^verbatim>\<open>NamespaceConfig.HasRouteMatchers\<close> is declared in the
  \<^verbatim>\<open>config\<close> package, which is not among the sources. The specification speaks of
  the route slot being there "only if route rules configured", that is when at least one
  route rule is configured.
\<close>

definition HasRouteMatchers :: "NamespaceConfig \<Rightarrow> bool" where
  "HasRouteMatchers cfg = (Routes cfg \<noteq> [])"

subsection \<open>Parsed lines\<close>

text \<open>
  Modelled from the spec: the line parser is an external collaborator. An entry is a
  mapping from field names to values; \<^verbatim>\<open>Field\<close> fails when the field is absent, and
  \<^verbatim>\<open>FloatField\<close> fails when the field is absent or not numeric. The source looks only
  at whether the error is nil, so failure is \<open>None\<close>. The conversion of a string to a
  floating-point number is a parameter \<open>ParseFloat\<close>, over any type \<open>'f\<close> of numbers.
\<close>

type_synonym Entry = "string \<rightharpoonup> string"

definition Field :: "Entry \<Rightarrow> string \<Rightarrow> string option" where
  "Field entry name = entry name"

definition FloatField :: "(string \<Rightarrow> 'f option) \<Rightarrow> Entry \<Rightarrow> string \<Rightarrow> 'f option" where
  "FloatField ParseFloat entry name =
     (case Field entry name of None \<Rightarrow> None | Some tmp \<Rightarrow> ParseFloat tmp)"

text \<open>
  \<^verbatim>\<open>strings.Split(s, sep)\<close> for a separator of one character: the pieces of \<open>s\<close>
  between the occurrences of the separator, one more than there are occurrences.
\<close>

fun Split :: "string \<Rightarrow> char \<Rightarrow> string list" where
  "Split [] sep = [[]]"
| "Split (c # cs) sep =
     (if c = sep then [] # Split cs sep
      else (case Split cs sep of [] \<Rightarrow> [[c]] | w # ws \<Rightarrow> (c # w) # ws))"

subsection \<open>Metric vectors\<close>

text \<open>
  The metric store is an external collaborator. A vector is what it was created with (its
  options and its ordered label names) together with the operations applied to it so
  far, each with the label values it was applied under, in the order of application.
  The registry in which \<^verbatim>\<open>Init\<close> registers the vectors, and what the store does
  with an operation, are outside this model.
\<close>

datatype vec_kind = CounterVec | SummaryVec | HistogramVec

datatype 'f sample = Inc | Add 'f | Observe 'f

record 'f MetricVec =
  vecKind :: vec_kind
  vecNamespace :: string
  vecName :: string
  vecHelp :: string
  vecLabels :: "string list"
  vecOps :: "(string list \<times> 'f sample) list"

definition NewVec :: "vec_kind \<Rightarrow> string \<Rightarrow> string \<Rightarrow> string \<Rightarrow> string list \<Rightarrow> 'f MetricVec" where
  "NewVec kind ns name help labels =
     \<lparr>vecKind = kind, vecNamespace = ns, vecName = name, vecHelp = help,
      vecLabels = labels, vecOps = []\<rparr>"

definition WithLabelValues :: "'f MetricVec \<Rightarrow> string list \<Rightarrow> 'f sample \<Rightarrow> 'f MetricVec" where
  "WithLabelValues v lvs s = v\<lparr>vecOps := vecOps v @ [(lvs, s)]\<rparr>"

record 'f Metrics =
  countTotal :: "'f MetricVec"
  bytesTotal :: "'f MetricVec"
  upstreamSeconds :: "'f MetricVec"
  upstreamSecondsHist :: "'f MetricVec"
  responseSeconds :: "'f MetricVec"
  responseSecondsHist :: "'f MetricVec"

subsection \<open>\<^verbatim>\<open>Metrics.Init\<close>\<close>

text \<open>The loop of \<^verbatim>\<open>Init\<close> that appends the target label of each relabel rule.\<close>

fun append_target_labels :: "RelabelConfig list \<Rightarrow> string list \<Rightarrow> string list" where
  "append_target_labels [] labels = labels"
| "append_target_labels (c # cs) labels = append_target_labels cs (labels @ [TargetLabel c])"

definition init_labels :: "NamespaceConfig \<Rightarrow> string list" where
  "init_labels cfg =
     (let labels = [''method'', ''status''];
          labels = (if HasRouteMatchers cfg then labels @ [''request_uri''] else labels);
          labels = labels @ OrderedLabelNames cfg
      in append_target_labels (RelabelConfigs cfg) labels)"

text \<open>
  \<^verbatim>\<open>Init\<close> first calls \<^verbatim>\<open>cfg.MustCompile()\<close>, which is declared in the
  \<^verbatim>\<open>config\<close> package and is a parameter here: it updates the configuration in place
  or panics. \<^verbatim>\<open>Init\<close> gives back the configuration as compiled and the six vectors.
\<close>

definition Init ::
  "(NamespaceConfig \<Rightarrow> panic + NamespaceConfig) \<Rightarrow> NamespaceConfig
     \<Rightarrow> panic + (NamespaceConfig \<times> 'f Metrics)" where
  "Init MustCompile cfg0 =
     bindE (MustCompile cfg0) (\<lambda>cfg.
       let labels = init_labels cfg in
       Inr (cfg,
         \<lparr>countTotal = NewVec CounterVec (Name cfg) ''http_response_count_total''
            ''Amount of processed HTTP requests'' labels,
          bytesTotal = NewVec CounterVec (Name cfg) ''http_response_size_bytes''
            ''Total amount of transferred bytes'' labels,
          upstreamSeconds = NewVec SummaryVec (Name cfg) ''http_upstream_time_seconds''
            ''Time needed by upstream servers to handle requests'' labels,
          upstreamSecondsHist = NewVec HistogramVec (Name cfg) ''http_upstream_time_seconds_hist''
            ''Time needed by upstream servers to handle requests'' labels,
          responseSeconds = NewVec SummaryVec (Name cfg) ''http_response_time_seconds''
            ''Time needed by NGINX to handle requests'' labels,
          responseSecondsHist = NewVec HistogramVec (Name cfg) ''http_response_time_seconds_hist''
            ''Time needed by NGINX to handle requests'' labels\<rparr>))"

subsection \<open>The ingestor: set-up of the label buffer\<close>

definition intrinsicLabelCount :: "NamespaceConfig \<Rightarrow> nat" where
  "intrinsicLabelCount nsCfg = (if HasRouteMatchers nsCfg then 2 + 1 else 2)"

definition totalLabelCount :: "NamespaceConfig \<Rightarrow> nat" where
  "totalLabelCount nsCfg =
     length (OrderedLabelValues nsCfg) + intrinsicLabelCount nsCfg + length (RelabelConfigs nsCfg)"

definition relabelLabelOffset :: "NamespaceConfig \<Rightarrow> nat" where
  "relabelLabelOffset nsCfg = length (OrderedLabelValues nsCfg) + intrinsicLabelCount nsCfg"

text \<open>
  \<^verbatim>\<open>for i := range staticLabelValues { labelValues[i+intrinsicLabelCount] = staticLabelValues[i] }\<close>,
  with the values still to copy and the index \<open>i\<close> reached.
\<close>

fun fill_static :: "string list \<Rightarrow> nat \<Rightarrow> nat \<Rightarrow> string list \<Rightarrow> panic + string list" where
  "fill_static [] i n labelValues = Inr labelValues"
| "fill_static (v # vs) i n labelValues =
     (case store_at labelValues (i + n) v of
        Inl p \<Rightarrow> Inl p
      | Inr labelValues' \<Rightarrow> fill_static vs (Suc i) n labelValues')"

definition make_labelValues :: "NamespaceConfig \<Rightarrow> panic + string list" where
  "make_labelValues nsCfg =
     (let staticLabelValues = OrderedLabelValues nsCfg;
          labelValues = replicate (totalLabelCount nsCfg) []
      in fill_static staticLabelValues 0 (intrinsicLabelCount nsCfg) labelValues)"

subsection \<open>The ingestor: one line\<close>

text \<open>
  The route loop: the patterns still to try and the index \<open>i\<close> reached; \<open>f\<close> is the
  split request. \<^verbatim>\<open>f[1]\<close> is read in every iteration, \<^verbatim>\<open>nsCfg.Routes[i]\<close> at a match,
  after which the loop is left.
\<close>

fun match_routes ::
  "NamespaceConfig \<Rightarrow> string list \<Rightarrow> regexp list \<Rightarrow> nat \<Rightarrow> string list \<Rightarrow> panic + string list" where
  "match_routes nsCfg f [] i labelValues = Inr labelValues"
| "match_routes nsCfg f (re # res) i labelValues =
     (case index_at f 1 of
        Inl p \<Rightarrow> Inl p
      | Inr path \<Rightarrow>
          if re path then
            (case index_at (Routes nsCfg) i of
               Inl p \<Rightarrow> Inl p
             | Inr route \<Rightarrow> store_at labelValues 2 route)
          else match_routes nsCfg f res (Suc i) labelValues)"

text \<open>The block guarded by \<^verbatim>\<open>entry.Field("request")\<close> having no error.\<close>

definition request_labels :: "NamespaceConfig \<Rightarrow> Entry \<Rightarrow> string list \<Rightarrow> panic + string list" where
  "request_labels nsCfg entry labelValues =
     (case Field entry ''request'' of
        None \<Rightarrow> Inr labelValues
      | Some request \<Rightarrow>
          (let f = Split request CHR '' '' in
           bindE (index_at f 0) (\<lambda>method.
           bindE (store_at labelValues 0 method) (\<lambda>labelValues.
             if HasRouteMatchers nsCfg then
               bindE (store_at labelValues 2 []) (\<lambda>labelValues.
                 match_routes nsCfg f (CompiledRouteRegexps nsCfg) 0 labelValues)
             else Inr labelValues))))"

definition status_label :: "Entry \<Rightarrow> string list \<Rightarrow> panic + string list" where
  "status_label entry labelValues =
     (case Field entry ''status'' of
        None \<Rightarrow> Inr labelValues
      | Some s \<Rightarrow> store_at labelValues 1 s)"

text \<open>The relabel loop: the rules still to apply and the index \<open>i\<close> reached.\<close>

fun relabel ::
  "RelabelConfig list \<Rightarrow> nat \<Rightarrow> nat \<Rightarrow> Entry \<Rightarrow> string list \<Rightarrow> panic + string list" where
  "relabel [] i offset entry labelValues = Inr labelValues"
| "relabel (c # cs) i offset entry labelValues =
     (case (case Field entry (SourceValue c) of
              Some str \<Rightarrow>
                (let ok = (WhitelistMap c str \<noteq> None);
                     str = (if WhitelistExists c \<and> \<not> ok then ''other'' else str)
                 in store_at labelValues (i + offset) str)
            | None \<Rightarrow> store_at labelValues (i + offset) [])
      of Inl p \<Rightarrow> Inl p
       | Inr labelValues' \<Rightarrow> relabel cs (Suc i) offset entry labelValues')"

text \<open>Lines 206 to 240: everything written to the label buffer for one parsed line.\<close>

definition resolve_labels :: "NamespaceConfig \<Rightarrow> string list \<Rightarrow> Entry \<Rightarrow> panic + string list" where
  "resolve_labels nsCfg labelValues entry =
     bindE (store_at labelValues 0 ''UNKNOWN'') (\<lambda>labelValues.
     bindE (store_at labelValues 1 ''0'') (\<lambda>labelValues.
     bindE (request_labels nsCfg entry labelValues) (\<lambda>labelValues.
     bindE (status_label entry labelValues) (\<lambda>labelValues.
       relabel (RelabelConfigs nsCfg) 0 (relabelLabelOffset nsCfg) entry labelValues))))"

text \<open>Lines 242 to 256: the updates of the six vectors.\<close>

definition dispatch :: "(string \<Rightarrow> 'f option) \<Rightarrow> 'f Metrics \<Rightarrow> string list \<Rightarrow> Entry \<Rightarrow> 'f Metrics" where
  "dispatch ParseFloat metrics labelValues entry =
     (let metrics = metrics\<lparr>countTotal := WithLabelValues (countTotal metrics) labelValues Inc\<rparr>;
          metrics =
            (case FloatField ParseFloat entry ''body_bytes_sent'' of
               Some bytes \<Rightarrow>
                 metrics\<lparr>bytesTotal := WithLabelValues (bytesTotal metrics) labelValues (Add bytes)\<rparr>
             | None \<Rightarrow> metrics);
          metrics =
            (case FloatField ParseFloat entry ''upstream_response_time'' of
               Some upstreamTime \<Rightarrow>
                 metrics\<lparr>upstreamSeconds :=
                           WithLabelValues (upstreamSeconds metrics) labelValues (Observe upstreamTime),
                         upstreamSecondsHist :=
                           WithLabelValues (upstreamSecondsHist metrics) labelValues (Observe upstreamTime)\<rparr>
             | None \<Rightarrow> metrics)
      in (case FloatField ParseFloat entry ''request_time'' of
            Some responseTime \<Rightarrow>
              metrics\<lparr>responseSeconds :=
                        WithLabelValues (responseSeconds metrics) labelValues (Observe responseTime),
                      responseSecondsHist :=
                        WithLabelValues (responseSecondsHist metrics) labelValues (Observe responseTime)\<rparr>
          | None \<Rightarrow> metrics))"

subsection \<open>The ingestor: the loop over the lines\<close>

text \<open>
  The state of one ingestor: its label buffer, the metric vectors, and what it has
  printed. The parser of the namespace is a parameter \<open>ParseString\<close>, which gives an
  entry or an error message.
\<close>

record 'f ingestor =
  labelValues :: "string list"
  metrics :: "'f Metrics"
  stdout :: "string list"

definition parse_error_message :: "string \<Rightarrow> string \<Rightarrow> string" where
  "parse_error_message text err =
     ''error while parsing line '' @ [CHR 0x27] @ text @ [CHR 0x27] @ '': '' @ err"

definition process_line ::
  "(string \<Rightarrow> string + Entry) \<Rightarrow> (string \<Rightarrow> 'f option) \<Rightarrow> NamespaceConfig
     \<Rightarrow> 'f ingestor \<Rightarrow> string \<Rightarrow> panic + 'f ingestor" where
  "process_line ParseString ParseFloat nsCfg st text =
     (case ParseString text of
        Inl err \<Rightarrow> Inr (st\<lparr>stdout := stdout st @ [parse_error_message text err]\<rparr>)
      | Inr entry \<Rightarrow>
          bindE (resolve_labels nsCfg (labelValues st) entry) (\<lambda>lvs.
            Inr (st\<lparr>labelValues := lvs,
                    metrics := dispatch ParseFloat (metrics st) lvs entry\<rparr>)))"

text \<open>
  \<^verbatim>\<open>for line := range t.Lines\<close>, on the lines delivered so far. A panic ends the
  process, so the loop stops at it.
\<close>

fun line_loop ::
  "(string \<Rightarrow> string + Entry) \<Rightarrow> (string \<Rightarrow> 'f option) \<Rightarrow> NamespaceConfig
     \<Rightarrow> 'f ingestor \<Rightarrow> string list \<Rightarrow> panic + 'f ingestor" where
  "line_loop ParseString ParseFloat nsCfg st [] = Inr st"
| "line_loop ParseString ParseFloat nsCfg st (text # rest) =
     (case process_line ParseString ParseFloat nsCfg st text of
        Inl p \<Rightarrow> Inl p
      | Inr st' \<Rightarrow> line_loop ParseString ParseFloat nsCfg st' rest)"

definition ingestor_run ::
  "(string \<Rightarrow> string + Entry) \<Rightarrow> (string \<Rightarrow> 'f option) \<Rightarrow> NamespaceConfig
     \<Rightarrow> 'f Metrics \<Rightarrow> string list \<Rightarrow> panic + 'f ingestor" where
  "ingestor_run ParseString ParseFloat nsCfg m lines =
     bindE (make_labelValues nsCfg) (\<lambda>lvs.
       line_loop ParseString ParseFloat nsCfg
         \<lparr>labelValues = lvs, metrics = m, stdout = []\<rparr> lines)"

subsection \<open>Notions used in the statements\<close>

text \<open>The label values of every operation applied to any of the six vectors.\<close>

definition recorded_labels :: "'f Metrics \<Rightarrow> string list list" where
  "recorded_labels m =
     map fst (vecOps (countTotal m)) @ map fst (vecOps (bytesTotal m))
       @ map fst (vecOps (upstreamSeconds m)) @ map fst (vecOps (upstreamSecondsHist m))
       @ map fst (vecOps (responseSeconds m)) @ map fst (vecOps (responseSecondsHist m))"

text \<open>
  The static-label slots of a label vector: the positions from \<open>intrinsicLabelCount\<close>
  up to, not including, \<open>relabelLabelOffset\<close>.
\<close>

definition static_slots :: "NamespaceConfig \<Rightarrow> string list \<Rightarrow> string list" where
  "static_slots nsCfg lvs =
     take (relabelLabelOffset nsCfg - intrinsicLabelCount nsCfg) (drop (intrinsicLabelCount nsCfg) lvs)"

text \<open>
  The positions a line may write: method, status, the route slot when there are route
  matchers, and one slot for each relabel rule.
\<close>

definition line_slots :: "NamespaceConfig \<Rightarrow> nat set" where
  "line_slots nsCfg =
     {0, 1} \<union> (if HasRouteMatchers nsCfg then {2} else {})
       \<union> {relabelLabelOffset nsCfg ..< relabelLabelOffset nsCfg + length (RelabelConfigs nsCfg)}"

subsection \<open>Example configurations and lines\<close>

text \<open>
  What \<^verbatim>\<open>MatchString\<close> computes for a pattern \<^verbatim>\<open>^p\<close> whose \<open>p\<close> has no
  metacharacter: whether the string starts with \<open>p\<close>.
\<close>

definition starts_with :: "string \<Rightarrow> regexp" where
  "starts_with p s = (take (length p) s = p)"

definition whitelist_ab :: "string \<rightharpoonup> unit" where
  "whitelist_ab = [''a'' \<mapsto> (), ''b'' \<mapsto> ()]"

text \<open>
  A namespace with two route rules, one static label and three relabel rules, the first
  two with the whitelist \<open>{a, b}\<close> and the third without a whitelist.
\<close>

definition shop_cfg :: NamespaceConfig where
  "shop_cfg =
     \<lparr>Name = ''nginx'', Format = ''$request $status $host $site'', SourceFiles = [''access.log''],
      OrderedLabelNames = [''app''], OrderedLabelValues = [''shop''],
      RelabelConfigs =
        [\<lparr>TargetLabel = ''host'', SourceValue = ''host'', WhitelistExists = True,
           WhitelistMap = whitelist_ab\<rparr>,
         \<lparr>TargetLabel = ''site'', SourceValue = ''site'', WhitelistExists = True,
           WhitelistMap = whitelist_ab\<rparr>,
         \<lparr>TargetLabel = ''user'', SourceValue = ''remote_user'', WhitelistExists = False,
           WhitelistMap = Map.empty\<rparr>],
      Routes = [''^/api'', ''^/''],
      CompiledRouteRegexps = [starts_with ''/api'', starts_with ''/'']\<rparr>"

text \<open>A namespace with route rules only.\<close>

definition routes_cfg :: NamespaceConfig where
  "routes_cfg =
     \<lparr>Name = ''nginx'', Format = ''$request $status'', SourceFiles = [''access.log''],
      OrderedLabelNames = [], OrderedLabelValues = [], RelabelConfigs = [],
      Routes = [''^/api'', ''^/''],
      CompiledRouteRegexps = [starts_with ''/api'', starts_with ''/'']\<rparr>"

text \<open>A namespace with no route rule, no static label and no relabel rule.\<close>

definition plain_cfg :: NamespaceConfig where
  "plain_cfg =
     \<lparr>Name = ''nginx'', Format = ''$request $status $body_bytes_sent'', SourceFiles = [''access.log''],
      OrderedLabelNames = [], OrderedLabelValues = [], RelabelConfigs = [],
      Routes = [], CompiledRouteRegexps = []\<rparr>"

text \<open>
  A parser given by a table from lines to entries; any other line is a parse error. The
  numbers are integers here, read from a table as well.
\<close>

definition table_parser :: "(string \<times> Entry) list \<Rightarrow> string \<Rightarrow> string + Entry" where
  "table_parser table text =
     (case map_of table text of None \<Rightarrow> Inl ''does not match'' | Some entry \<Rightarrow> Inr entry)"

definition table_float :: "string \<Rightarrow> int option" where
  "table_float = map_of [(''0'', 0), (''1'', 1), (''512'', 512)]"

definition api_entry :: Entry where
  "api_entry = [''request'' \<mapsto> ''GET /api/v1 HTTP/1.1'', ''status'' \<mapsto> ''200'',
     ''host'' \<mapsto> ''c'', ''site'' \<mapsto> ''a'', ''body_bytes_sent'' \<mapsto> ''512'']"

definition no_request_entry :: Entry where
  "no_request_entry = [''status'' \<mapsto> ''404'']"

definition one_token_entry :: Entry where
  "one_token_entry = [''request'' \<mapsto> ''-'', ''status'' \<mapsto> ''400'']"

definition example_lines :: "(string \<times> Entry) list" where
  "example_lines =
     [(''line with request'', api_entry),
      (''line without request'', no_request_entry),
      (''line with one token'', one_token_entry)]"

definition fresh_metrics :: "NamespaceConfig \<Rightarrow> int Metrics" where
  "fresh_metrics cfg = (case Init Inr cfg of Inr (cfg', m) \<Rightarrow> m)"

text \<open>
  One ingestor of a namespace on the example lines, started on vectors fresh from
  \<^verbatim>\<open>Init\<close>, and the state it reaches when it does not panic.
\<close>

definition example_run :: "NamespaceConfig \<Rightarrow> string list \<Rightarrow> panic + int ingestor" where
  "example_run cfg texts =
     ingestor_run (table_parser example_lines) table_float cfg (fresh_metrics cfg) texts"

definition example_state :: "NamespaceConfig \<Rightarrow> string list \<Rightarrow> int ingestor" where
  "example_state cfg texts = (case example_run cfg texts of Inr st \<Rightarrow> st)"

section \<open>Basic facts\<close>

lemma bindE_Inr [simp]: "bindE (Inr x) k = k x"
  by (simp add: bindE_def)

lemma bindE_Inl [simp]: "bindE (Inl p) k = Inl p"
  by (simp add: bindE_def)

lemma bindE_eq_Inr: "bindE m k = Inr y \<longleftrightarrow> (\<exists>x. m = Inr x \<and> k x = Inr y)"
  by (cases m) simp_all

lemma store_at_eq_Inr: "store_at xs i v = Inr ys \<longleftrightarrow> i < length xs \<and> ys = xs[i := v]"
  by (auto simp: store_at_def)

lemma index_at_eq_Inr: "index_at xs i = Inr y \<longleftrightarrow> i < length xs \<and> y = xs ! i"
  by (auto simp: index_at_def)

lemma Split_not_Nil: "Split s sep \<noteq> []"
  by (induction s) (auto split: list.splits)

lemma hd_Split: "hd (Split s sep) = takeWhile (\<lambda>c. c \<noteq> sep) s"
  using Split_not_Nil [of _ sep] by (induction s) (auto split: list.splits)

lemma length_Split: "length (Split s sep) = Suc (length (filter (\<lambda>c. c = sep) s))"
  using Split_not_Nil [of _ sep] by (induction s) (auto split: list.splits)

lemma Split_Cons_other:
  "c \<noteq> sep \<Longrightarrow> Split (c # cs) sep = (c # hd (Split cs sep)) # tl (Split cs sep)"
  using Split_not_Nil [of cs sep] by (cases "Split cs sep") simp_all

lemma tl_Split:
  "tl (Split s sep) = (case dropWhile (\<lambda>c. c \<noteq> sep) s of [] \<Rightarrow> [] | c # cs \<Rightarrow> Split cs sep)"
proof (induction s)
  case Nil
  then show ?case by simp
next
  case (Cons a s)
  show ?case
  proof (cases "a = sep")
    case True
    then show ?thesis by simp
  next
    case False
    then show ?thesis using Cons.IH by (simp add: Split_Cons_other del: Split.simps)
  qed
qed

lemma Split_second:
  assumes "1 < length (Split s sep)"
  shows "Split s sep ! 1 = takeWhile (\<lambda>c. c \<noteq> sep) (tl (dropWhile (\<lambda>c. c \<noteq> sep) s))"
proof -
  have ne: "tl (Split s sep) \<noteq> []"
    using assms by (cases "Split s sep") auto
  then obtain c cs where d: "dropWhile (\<lambda>c. c \<noteq> sep) s = c # cs"
    by (auto simp: tl_Split split: list.splits)
  have "Split s sep ! 1 = hd (tl (Split s sep))"
    using assms ne by (cases "Split s sep") (auto simp: hd_conv_nth)
  also have "\<dots> = hd (Split cs sep)"
    by (simp add: tl_Split d)
  finally show ?thesis
    by (simp add: hd_Split d)
qed

lemma append_target_labels_eq: "append_target_labels cs labels = labels @ map TargetLabel cs"
  by (induction cs arbitrary: labels) simp_all

lemma init_labels_eq:
  "init_labels cfg = [''method'', ''status''] @ (if HasRouteMatchers cfg then [''request_uri''] else [])
     @ OrderedLabelNames cfg @ map TargetLabel (RelabelConfigs cfg)"
  by (simp add: init_labels_def append_target_labels_eq Let_def)

lemma fill_static_eq:
  "i + n + length vs \<le> length lvs \<Longrightarrow>
     fill_static vs i n lvs = Inr (take (i + n) lvs @ vs @ drop (i + n + length vs) lvs)"
proof (induction vs arbitrary: i lvs)
  case Nil
  then show ?case by simp
next
  case (Cons v vs)
  have "fill_static (v # vs) i n lvs = fill_static vs (Suc i) n (lvs[i + n := v])"
    using Cons.prems by (simp add: store_at_def)
  also have "\<dots> = Inr (take (Suc i + n) (lvs[i + n := v]) @ vs @ drop (Suc i + n + length vs) (lvs[i + n := v]))"
    using Cons.prems by (intro Cons.IH) simp
  also have "take (Suc i + n) (lvs[i + n := v]) = take (i + n) lvs @ [v]"
    using Cons.prems by (simp add: take_Suc_conv_app_nth)
  finally show ?case by simp
qed

lemma make_labelValues_eq:
  "make_labelValues cfg =
     Inr (replicate (intrinsicLabelCount cfg) [] @ OrderedLabelValues cfg
            @ replicate (length (RelabelConfigs cfg)) [])"
  by (simp add: make_labelValues_def totalLabelCount_def fill_static_eq Let_def)

lemma Init_eq_Inr:
  "Init MustCompile cfg0 = Inr (cfg, m) \<Longrightarrow>
     MustCompile cfg0 = Inr cfg \<and> vecLabels (countTotal m) = init_labels cfg
     \<and> vecLabels (bytesTotal m) = init_labels cfg
     \<and> vecLabels (upstreamSeconds m) = init_labels cfg
     \<and> vecLabels (upstreamSecondsHist m) = init_labels cfg
     \<and> vecLabels (responseSeconds m) = init_labels cfg
     \<and> vecLabels (responseSecondsHist m) = init_labels cfg
     \<and> recorded_labels m = []"
  by (auto simp: Init_def bindE_eq_Inr NewVec_def Let_def recorded_labels_def)

lemma Init_fresh_metrics: "Init Inr cfg = Inr (cfg, fresh_metrics cfg)"
  by (simp add: fresh_metrics_def Init_def Let_def)

section \<open>The label buffer during one line\<close>

lemma match_routes_cases:
  "match_routes cfg f res i lvs = Inr lvs' \<Longrightarrow> lvs' = lvs \<or> (\<exists>route. 2 < length lvs \<and> lvs' = lvs[2 := route])"
  by (induction res arbitrary: i)
     (auto simp: store_at_eq_Inr index_at_eq_Inr split: sum.splits if_splits)


lemma request_labels_length:
  "request_labels cfg e lvs = Inr lvs' \<Longrightarrow> length lvs' = length lvs"
  by (auto simp: request_labels_def Field_def bindE_eq_Inr store_at_eq_Inr Let_def
           split: option.splits if_splits dest!: match_routes_cases)

lemma request_labels_frame:
  "request_labels cfg e lvs = Inr lvs' \<Longrightarrow> j \<noteq> 0 \<Longrightarrow> (HasRouteMatchers cfg \<longrightarrow> j \<noteq> 2) \<Longrightarrow>
     lvs' ! j = lvs ! j"
  by (auto simp: request_labels_def Field_def bindE_eq_Inr store_at_eq_Inr Let_def
           split: option.splits if_splits dest!: match_routes_cases)

lemma status_label_length:
  "status_label e lvs = Inr lvs' \<Longrightarrow> length lvs' = length lvs"
  by (auto simp: status_label_def store_at_eq_Inr split: option.splits)

lemma status_label_frame:
  "status_label e lvs = Inr lvs' \<Longrightarrow> j \<noteq> 1 \<Longrightarrow> lvs' ! j = lvs ! j"
  by (auto simp: status_label_def store_at_eq_Inr split: option.splits)

lemma relabel_Cons_eq_Inr:
  "relabel (c # cs) i off e lvs = Inr lvs' \<longleftrightarrow>
     i + off < length lvs \<and>
     relabel cs (Suc i) off e
       (lvs[i + off := (case Field e (SourceValue c) of None \<Rightarrow> []
                        | Some v \<Rightarrow> if WhitelistExists c \<and> WhitelistMap c v = None then ''other'' else v)])
     = Inr lvs'"
  by (auto simp: store_at_def Let_def split: option.splits sum.splits)

lemma relabel_length:
  "relabel cs i off e lvs = Inr lvs' \<Longrightarrow> length lvs' = length lvs"
  by (induction cs arbitrary: i lvs) (auto simp: relabel_Cons_eq_Inr simp del: relabel.simps(2))

lemma relabel_frame:
  "relabel cs i off e lvs = Inr lvs' \<Longrightarrow> j < i + off \<or> i + off + length cs \<le> j \<Longrightarrow> lvs' ! j = lvs ! j"
proof (induction cs arbitrary: i lvs)
  case Nil
  then show ?case by simp
next
  case (Cons c cs)
  from Cons.prems(1) obtain v where
    r: "relabel cs (Suc i) off e (lvs[i + off := v]) = Inr lvs'"
    by (auto simp: relabel_Cons_eq_Inr simp del: relabel.simps(2))
  have "lvs' ! j = (lvs[i + off := v]) ! j"
    using Cons.prems(2) by (intro Cons.IH [OF r]) auto
  also have "\<dots> = lvs ! j"
    using Cons.prems(2) by auto
  finally show ?case .
qed

lemma relabel_value:
  "relabel cs i off e lvs = Inr lvs' \<Longrightarrow> k < length cs \<Longrightarrow>
     lvs' ! (i + k + off) =
       (case Field e (SourceValue (cs ! k)) of None \<Rightarrow> []
        | Some v \<Rightarrow> if WhitelistExists (cs ! k) \<and> WhitelistMap (cs ! k) v = None then ''other'' else v)"
proof (induction cs arbitrary: i k lvs)
  case Nil
  then show ?case by simp
next
  case (Cons c cs)
  let ?v = "case Field e (SourceValue c) of None \<Rightarrow> []
            | Some v \<Rightarrow> if WhitelistExists c \<and> WhitelistMap c v = None then ''other'' else v"
  from Cons.prems(1) have i: "i + off < length lvs"
    and r: "relabel cs (Suc i) off e (lvs[i + off := ?v]) = Inr lvs'"
    by (simp_all add: relabel_Cons_eq_Inr del: relabel.simps(2))
  show ?case
  proof (cases k)
    case 0
    have "lvs' ! (i + off) = (lvs[i + off := ?v]) ! (i + off)"
      by (rule relabel_frame [OF r]) simp
    then show ?thesis unfolding 0 using i by (simp split: option.splits)
  next
    case (Suc k')
    then have "k' < length cs" using Cons.prems(2) by simp
    from Cons.IH [OF r this] show ?thesis unfolding Suc by (simp split: option.splits)
  qed
qed


lemma relabelLabelOffset_ge: "2 \<le> relabelLabelOffset cfg" "intrinsicLabelCount cfg \<le> relabelLabelOffset cfg"
  "HasRouteMatchers cfg \<Longrightarrow> 3 \<le> relabelLabelOffset cfg"
  by (simp_all add: relabelLabelOffset_def intrinsicLabelCount_def)

lemma resolve_labels_eq_Inr:
  "resolve_labels cfg lvs e = Inr lvs' \<longleftrightarrow>
     2 \<le> length lvs \<and>
     (\<exists>l1 l2. request_labels cfg e (lvs[0 := ''UNKNOWN'', 1 := ''0'']) = Inr l1
        \<and> status_label e l1 = Inr l2
        \<and> relabel (RelabelConfigs cfg) 0 (relabelLabelOffset cfg) e l2 = Inr lvs')"
  by (auto simp: resolve_labels_def bindE_eq_Inr store_at_eq_Inr)

lemma resolve_labels_length:
  "resolve_labels cfg lvs e = Inr lvs' \<Longrightarrow> length lvs' = length lvs"
  by (auto simp: resolve_labels_eq_Inr dest!: request_labels_length status_label_length relabel_length)

lemma resolve_labels_frame:
  assumes "resolve_labels cfg lvs e = Inr lvs'" and "j \<notin> line_slots cfg"
  shows "lvs' ! j = lvs ! j"
proof -
  from assms(1) obtain l1 l2 where
    a: "request_labels cfg e (lvs[0 := ''UNKNOWN'', 1 := ''0'']) = Inr l1"
    and b: "status_label e l1 = Inr l2"
    and c: "relabel (RelabelConfigs cfg) 0 (relabelLabelOffset cfg) e l2 = Inr lvs'"
    by (auto simp: resolve_labels_eq_Inr)
  from assms(2) have j: "j \<noteq> 0" "j \<noteq> 1" "HasRouteMatchers cfg \<longrightarrow> j \<noteq> 2"
    and jr: "j < 0 + relabelLabelOffset cfg \<or> 0 + relabelLabelOffset cfg + length (RelabelConfigs cfg) \<le> j"
    by (auto simp: line_slots_def split: if_splits)
  have "lvs' ! j = l2 ! j" by (rule relabel_frame [OF c jr])
  also have "\<dots> = l1 ! j" by (rule status_label_frame [OF b j(2)])
  also have "\<dots> = (lvs[0 := ''UNKNOWN'', 1 := ''0'']) ! j" by (rule request_labels_frame [OF a j(1) j(3)])
  also have "\<dots> = lvs ! j" using j by simp
  finally show ?thesis .
qed

lemma request_labels_method:
  "request_labels cfg e lvs = Inr lvs' \<Longrightarrow> 0 < length lvs \<Longrightarrow>
     lvs' ! 0 = (case Field e ''request'' of None \<Rightarrow> lvs ! 0
                 | Some request \<Rightarrow> takeWhile (\<lambda>c. c \<noteq> CHR '' '') request)"
  using Split_not_Nil
  by (auto simp: request_labels_def bindE_eq_Inr store_at_eq_Inr index_at_eq_Inr Let_def
                 hd_Split [symmetric] hd_conv_nth
           split: option.splits if_splits dest!: match_routes_cases)

lemma status_label_status:
  "status_label e lvs = Inr lvs' \<Longrightarrow> 
     lvs' ! 1 = (case Field e ''status'' of None \<Rightarrow> lvs ! 1 | Some s \<Rightarrow> s)"
  by (auto simp: status_label_def store_at_eq_Inr split: option.splits)


text \<open>
  Two facts on the request branch, for any configuration: without a request field the
  route slot is left as the line found it, and a request of fewer than two pieces panics
  as soon as there is a pattern to try.
\<close>

lemma request_labels_absent:
  "Field e ''request'' = None \<Longrightarrow> request_labels cfg e lvs = Inr lvs"
  by (simp add: request_labels_def)

lemma route_slot_kept_without_request:
  assumes "Field e ''request'' = None" and "resolve_labels cfg lvs e = Inr lvs'"
    and "HasRouteMatchers cfg"
  shows "lvs' ! 2 = lvs ! 2"
proof -
  from assms(2) obtain l1 l2 where
    a: "request_labels cfg e (lvs[0 := ''UNKNOWN'', 1 := ''0'']) = Inr l1"
    and b: "status_label e l1 = Inr l2"
    and c: "relabel (RelabelConfigs cfg) 0 (relabelLabelOffset cfg) e l2 = Inr lvs'"
    by (auto simp: resolve_labels_eq_Inr)
  have l1: "l1 = lvs[0 := ''UNKNOWN'', 1 := ''0'']"
    using a by (simp add: request_labels_absent [OF assms(1)])
  have "lvs' ! 2 = l2 ! 2"
    using relabelLabelOffset_ge(3) [OF assms(3)] by (intro relabel_frame [OF c]) simp
  also have "\<dots> = l1 ! 2"
    by (rule status_label_frame [OF b]) simp
  finally show ?thesis
    by (simp add: l1)
qed

lemma match_routes_one_token:
  "length f < 2 \<Longrightarrow> res \<noteq> [] \<Longrightarrow> match_routes cfg f res i lvs = Inl IndexOutOfRange"
  by (cases res) (simp_all add: index_at_def)

lemma one_token_request_route_panic:
  assumes "HasRouteMatchers cfg" and "CompiledRouteRegexps cfg \<noteq> []"
    and "Field e ''request'' = Some request"
    and "length (Split request CHR '' '') < 2"
  shows "resolve_labels cfg lvs e = Inl IndexOutOfRange"
proof (cases "3 \<le> length lvs")
  case True
  then have "lvs \<noteq> []" "2 \<le> length lvs" "2 < length lvs" by auto
  moreover have "index_at (Split request CHR '' '') 0 = Inr (hd (Split request CHR '' ''))"
    using Split_not_Nil [of request "CHR '' ''"]
    by (cases "Split request CHR '' ''") (simp_all add: index_at_def)
  ultimately show ?thesis
    using assms
    by (simp add: resolve_labels_def request_labels_def store_at_def Let_def
          match_routes_one_token)
next
  case False
  have "index_at (Split request CHR '' '') 0 = Inr (hd (Split request CHR '' ''))"
    using Split_not_Nil [of request "CHR '' ''"]
    by (cases "Split request CHR '' ''") (simp_all add: index_at_def)
  with False assms show ?thesis
    by (auto simp: resolve_labels_def request_labels_def store_at_def Let_def bindE_def
          match_routes_one_token split: sum.splits)
qed

section \<open>The loop over the lines\<close>

lemma process_line_eq_Inr:
  "process_line P F cfg st text = Inr st' \<longleftrightarrow>
     (\<exists>err. P text = Inl err \<and> st' = st\<lparr>stdout := stdout st @ [parse_error_message text err]\<rparr>)
     \<or> (\<exists>entry lvs'. P text = Inr entry \<and> resolve_labels cfg (labelValues st) entry = Inr lvs'
           \<and> st' = st\<lparr>labelValues := lvs', metrics := dispatch F (metrics st) lvs' entry\<rparr>)"
  by (auto simp: process_line_def bindE_eq_Inr split: sum.splits)

lemma vecOps_dispatch:
  "vecOps (countTotal (dispatch F m lvs e)) = vecOps (countTotal m) @ [(lvs, Inc)]"
  "vecOps (bytesTotal (dispatch F m lvs e)) = vecOps (bytesTotal m)
     @ (case FloatField F e ''body_bytes_sent'' of None \<Rightarrow> [] | Some bytes \<Rightarrow> [(lvs, Add bytes)])"
  "vecOps (upstreamSeconds (dispatch F m lvs e)) = vecOps (upstreamSeconds m)
     @ (case FloatField F e ''upstream_response_time'' of None \<Rightarrow> [] | Some t \<Rightarrow> [(lvs, Observe t)])"
  "vecOps (upstreamSecondsHist (dispatch F m lvs e)) = vecOps (upstreamSecondsHist m)
     @ (case FloatField F e ''upstream_response_time'' of None \<Rightarrow> [] | Some t \<Rightarrow> [(lvs, Observe t)])"
  "vecOps (responseSeconds (dispatch F m lvs e)) = vecOps (responseSeconds m)
     @ (case FloatField F e ''request_time'' of None \<Rightarrow> [] | Some t \<Rightarrow> [(lvs, Observe t)])"
  "vecOps (responseSecondsHist (dispatch F m lvs e)) = vecOps (responseSecondsHist m)
     @ (case FloatField F e ''request_time'' of None \<Rightarrow> [] | Some t \<Rightarrow> [(lvs, Observe t)])"
  by (simp_all add: dispatch_def WithLabelValues_def Let_def split: option.splits)

lemma set_recorded_labels_dispatch:
  "set (recorded_labels (dispatch F m lvs e)) = insert lvs (set (recorded_labels m))"
  by (auto simp: recorded_labels_def vecOps_dispatch split: option.splits)

lemma line_loop_invariant:
  assumes "line_loop P F cfg st lines = Inr st'"
    and "Q (labelValues st)"
    and "\<forall>lvs\<in>set (recorded_labels (metrics st)). Q lvs"
    and step: "\<And>lvs e lvs'. Q lvs \<Longrightarrow> resolve_labels cfg lvs e = Inr lvs' \<Longrightarrow> Q lvs'"
  shows "Q (labelValues st') \<and> (\<forall>lvs\<in>set (recorded_labels (metrics st')). Q lvs)"
  using assms(1-3)
proof (induction lines arbitrary: st)
  case Nil
  then show ?case by simp
next
  case (Cons l rest)
  from Cons.prems(1) obtain st1 where
    p: "process_line P F cfg st l = Inr st1" and l: "line_loop P F cfg st1 rest = Inr st'"
    by (auto split: sum.splits)
  have "Q (labelValues st1) \<and> (\<forall>lvs\<in>set (recorded_labels (metrics st1)). Q lvs)"
    using p Cons.prems(2,3) step
    by (auto simp: process_line_eq_Inr set_recorded_labels_dispatch)
  then show ?case
    using Cons.IH [OF l] by blast
qed

lemma static_slots_resolve_labels:
  assumes "resolve_labels cfg lvs e = Inr lvs'"
  shows "static_slots cfg lvs' = static_slots cfg lvs"
  unfolding static_slots_def
proof (rule nth_equalityI)
  let ?n = "relabelLabelOffset cfg - intrinsicLabelCount cfg"
  let ?i = "intrinsicLabelCount cfg"
  have len: "length lvs' = length lvs"
    by (rule resolve_labels_length [OF assms])
  then show "length (take ?n (drop ?i lvs')) = length (take ?n (drop ?i lvs))"
    by simp
  fix k
  assume "k < length (take ?n (drop ?i lvs'))"
  then have k: "k < ?n" "?i + k < length lvs"
    using len by auto
  have "?i + k \<notin> line_slots cfg"
    using k(1) by (auto simp: line_slots_def intrinsicLabelCount_def split: if_splits)
  from resolve_labels_frame [OF assms this] show "take ?n (drop ?i lvs') ! k = take ?n (drop ?i lvs) ! k"
    using k len by simp
qed

lemma static_slots_make_labelValues:
  "make_labelValues cfg = Inr lvs \<Longrightarrow> static_slots cfg lvs = OrderedLabelValues cfg"
  by (auto simp: make_labelValues_eq static_slots_def relabelLabelOffset_def)

lemma length_make_labelValues:
  "make_labelValues cfg = Inr lvs \<Longrightarrow> length lvs = totalLabelCount cfg"
  by (auto simp: make_labelValues_eq totalLabelCount_def)

lemma ingestor_run_eq_Inr:
  "ingestor_run P F cfg m lines = Inr st \<longleftrightarrow>
     (\<exists>lvs0. make_labelValues cfg = Inr lvs0
        \<and> line_loop P F cfg \<lparr>labelValues = lvs0, metrics = m, stdout = []\<rparr> lines = Inr st)"
  by (simp add: ingestor_run_def bindE_eq_Inr)

lemma line_slots_bound: "line_slots cfg \<subseteq> {..<totalLabelCount cfg}"
  by (auto simp: line_slots_def totalLabelCount_def relabelLabelOffset_def intrinsicLabelCount_def)

section \<open>The label schema of the vectors\<close>

text \<open>
  C3. For every namespace configuration, as \<^verbatim>\<open>MustCompile\<close> leaves it, each of the six
  vectors is created with the same ordered list of label names: \<open>method\<close>, \<open>status\<close>,
  then \<open>request_uri\<close> exactly when there is a route rule, then the static label names in
  their order, then the target labels of the relabel rules in their order.
\<close>

theorem Init_label_names:
  assumes "Init MustCompile cfg0 = Inr (cfg, m)"
  shows "map vecLabels [countTotal m, bytesTotal m, upstreamSeconds m, upstreamSecondsHist m,
                        responseSeconds m, responseSecondsHist m]
         = replicate 6 ([''method'', ''status'']
             @ (if HasRouteMatchers cfg then [''request_uri''] else [])
             @ OrderedLabelNames cfg
             @ map TargetLabel (RelabelConfigs cfg))"
  using Init_eq_Inr [OF assms] by (simp add: init_labels_eq numeral_eq_Suc)

theorem Init_label_names_witness:
  "Init Inr shop_cfg = Inr (shop_cfg, fresh_metrics shop_cfg)
   \<and> map vecLabels [countTotal (fresh_metrics shop_cfg), bytesTotal (fresh_metrics shop_cfg),
         upstreamSeconds (fresh_metrics shop_cfg), upstreamSecondsHist (fresh_metrics shop_cfg),
         responseSeconds (fresh_metrics shop_cfg), responseSecondsHist (fresh_metrics shop_cfg)]
     = replicate 6 [''method'', ''status'', ''request_uri'', ''app'', ''host'', ''site'', ''user'']"
proof -
  have h: "Init Inr shop_cfg = Inr (shop_cfg, fresh_metrics shop_cfg)"
    by (rule Init_fresh_metrics)
  have "HasRouteMatchers shop_cfg"
    by (simp add: HasRouteMatchers_def shop_cfg_def)
  then show ?thesis
    using h Init_label_names [OF h] by (simp add: shop_cfg_def)
qed

section \<open>The method and status slots\<close>

text \<open>
  C7, as the code has it. For every parsed line whose label resolution completes: the
  method slot (position 0) is the part of the request field before its first space when
  the field is present, whatever the field holds, and \<open>UNKNOWN\<close> when the field is absent;
  the status slot (position 1) is the value of the status field when present and \<open>0\<close>
  when absent.
\<close>

theorem method_and_status_slots:
  assumes "resolve_labels cfg lvs entry = Inr lvs'"
  shows "lvs' ! 0 = (case Field entry ''request'' of
                       None \<Rightarrow> ''UNKNOWN''
                     | Some request \<Rightarrow> takeWhile (\<lambda>c. c \<noteq> CHR '' '') request)
       \<and> lvs' ! 1 = (case Field entry ''status'' of None \<Rightarrow> ''0'' | Some s \<Rightarrow> s)"
proof -
  define l0 where "l0 = lvs[0 := ''UNKNOWN'', 1 := ''0'']"
  from assms obtain l1 l2 where len: "2 \<le> length lvs"
    and a: "request_labels cfg entry l0 = Inr l1"
    and b: "status_label entry l1 = Inr l2"
    and c: "relabel (RelabelConfigs cfg) 0 (relabelLabelOffset cfg) entry l2 = Inr lvs'"
    by (auto simp: resolve_labels_eq_Inr l0_def)
  from len obtain x y r where "lvs = x # y # r"
    by (cases lvs; cases "tl lvs") auto
  then have l0: "l0 ! 0 = ''UNKNOWN''" "l0 ! 1 = ''0''" "0 < length l0"
    by (simp_all add: l0_def)
  have off: "0 < 0 + relabelLabelOffset cfg" "1 < 0 + relabelLabelOffset cfg"
    using relabelLabelOffset_ge(1) [of cfg] by simp_all
  have "lvs' ! 0 = l2 ! 0"
    using off(1) by (intro relabel_frame [OF c]) simp
  also have "\<dots> = l1 ! 0"
    by (rule status_label_frame [OF b]) simp
  also have "\<dots> = (case Field entry ''request'' of None \<Rightarrow> l0 ! 0
                     | Some request \<Rightarrow> takeWhile (\<lambda>c. c \<noteq> CHR '' '') request)"
    by (rule request_labels_method [OF a l0(3)])
  finally have m: "lvs' ! 0 = (case Field entry ''request'' of None \<Rightarrow> ''UNKNOWN''
                     | Some request \<Rightarrow> takeWhile (\<lambda>c. c \<noteq> CHR '' '') request)"
    unfolding l0(1) .
  have l1: "l1 ! 1 = ''0''"
    using request_labels_frame [OF a, of 1] l0(2) by simp
  have "lvs' ! 1 = l2 ! 1"
    using off(2) by (intro relabel_frame [OF c]) simp
  also have "\<dots> = (case Field entry ''status'' of None \<Rightarrow> l1 ! 1 | Some s \<Rightarrow> s)"
    by (rule status_label_status [OF b])
  finally have s: "lvs' ! 1 = (case Field entry ''status'' of None \<Rightarrow> ''0'' | Some s \<Rightarrow> s)"
    unfolding l1 .
  from m s show ?thesis ..
qed

theorem method_and_status_slots_witness:
  "resolve_labels shop_cfg [[], [], [], ''shop'', [], [], []] no_request_entry
     = Inr [''UNKNOWN'', ''404'', [], ''shop'', [], [], []]
   \<and> [''UNKNOWN'', ''404'', [], ''shop'', [], [], []] ! 0 = ''UNKNOWN''
   \<and> [''UNKNOWN'', ''404'', [], ''shop'', [], [], []] ! 1 = ''404''"
proof -
  have h: "resolve_labels shop_cfg [[], [], [], ''shop'', [], [], []] no_request_entry
             = Inr [''UNKNOWN'', ''404'', [], ''shop'', [], [], []]"
    by code_simp
  have f: "Field no_request_entry ''request'' = None" "Field no_request_entry ''status'' = Some ''404''"
    by (simp_all add: Field_def no_request_entry_def)
  show ?thesis
    using h method_and_status_slots [OF h] by (simp add: f)
qed

text \<open>
  As C7 is stated, a request field that is present with fewer than two tokens is
  malformed and gives the method \<open>UNKNOWN\<close>. With no route rule, the request \<open>-\<close> gives
  the method \<open>-\<close>.
\<close>

theorem malformed_request_method_counterexample:
  "Field one_token_entry ''request'' = Some ''-''
   \<and> length (Split ''-'' CHR '' '') < 2
   \<and> make_labelValues plain_cfg = Inr [[], []]
   \<and> resolve_labels plain_cfg [[], []] one_token_entry = Inr [''-'', ''400'']
   \<and> [''-'', ''400''] ! 0 \<noteq> ''UNKNOWN''"
proof -
  have "Field one_token_entry ''request'' = Some ''-''"
    by (simp add: Field_def one_token_entry_def)
  moreover have "length (Split ''-'' CHR '' '') < 2"
    by simp
  moreover have "make_labelValues plain_cfg = Inr [[], []]"
    by code_simp
  moreover have "resolve_labels plain_cfg [[], []] one_token_entry = Inr [''-'', ''400'']"
    by code_simp
  ultimately show ?thesis by simp
qed

section \<open>Relabelling\<close>

text \<open>
  C5. For every relabel rule, in its slot of the label vector of a resolved line: the
  empty string when the rule's source field is absent from the parsed fields; \<open>other\<close>
  when the field is present, the rule has a whitelist and the value is not a key of it;
  the value of the field as it is otherwise.
\<close>

theorem relabel_slot_value:
  assumes "resolve_labels cfg lvs entry = Inr lvs'"
    and "i < length (RelabelConfigs cfg)"
    and "c = RelabelConfigs cfg ! i"
  shows "lvs' ! (i + relabelLabelOffset cfg) =
           (case Field entry (SourceValue c) of
              None \<Rightarrow> []
            | Some v \<Rightarrow> if WhitelistExists c \<and> WhitelistMap c v = None then ''other'' else v)"
proof -
  from assms(1) obtain l2 where
    "relabel (RelabelConfigs cfg) 0 (relabelLabelOffset cfg) entry l2 = Inr lvs'"
    by (auto simp: resolve_labels_eq_Inr)
  from relabel_value [OF this assms(2)] show ?thesis
    unfolding assms(3) by simp
qed

theorem relabel_slot_value_witness:
  "resolve_labels shop_cfg [[], [], [], ''shop'', [], [], []] api_entry
     = Inr [''GET'', ''200'', ''^/api'', ''shop'', ''other'', ''a'', []]
   \<and> [''GET'', ''200'', ''^/api'', ''shop'', ''other'', ''a'', []] ! (0 + relabelLabelOffset shop_cfg) = ''other''
   \<and> [''GET'', ''200'', ''^/api'', ''shop'', ''other'', ''a'', []] ! (1 + relabelLabelOffset shop_cfg) = ''a''
   \<and> [''GET'', ''200'', ''^/api'', ''shop'', ''other'', ''a'', []] ! (2 + relabelLabelOffset shop_cfg) = []"
proof -
  have h: "resolve_labels shop_cfg [[], [], [], ''shop'', [], [], []] api_entry
             = Inr [''GET'', ''200'', ''^/api'', ''shop'', ''other'', ''a'', []]"
    by code_simp
  have n: "length (RelabelConfigs shop_cfg) = 3"
    by (simp add: shop_cfg_def)
  have "[''GET'', ''200'', ''^/api'', ''shop'', ''other'', ''a'', []] ! (0 + relabelLabelOffset shop_cfg) = ''other''"
    using relabel_slot_value [OF h, of 0 "RelabelConfigs shop_cfg ! 0"]
    by (simp add: n) (simp add: shop_cfg_def Field_def api_entry_def whitelist_ab_def)
  moreover have "[''GET'', ''200'', ''^/api'', ''shop'', ''other'', ''a'', []] ! (1 + relabelLabelOffset shop_cfg) = ''a''"
    using relabel_slot_value [OF h, of 1 "RelabelConfigs shop_cfg ! 1"]
    by (simp add: n) (simp add: shop_cfg_def Field_def api_entry_def whitelist_ab_def)
  moreover have "[''GET'', ''200'', ''^/api'', ''shop'', ''other'', ''a'', []] ! (2 + relabelLabelOffset shop_cfg) = []"
    using relabel_slot_value [OF h, of 2 "RelabelConfigs shop_cfg ! 2"]
    by (simp add: n) (simp add: shop_cfg_def Field_def api_entry_def)
  ultimately show ?thesis
    using h by simp
qed

section \<open>Route matching\<close>



section \<open>The static-label slots\<close>

text \<open>
  C10. In any state that an ingestor reaches, the static-label slots of the label buffer
  hold the configured static label values, and so do those of the label values of every
  operation applied to the vectors (given that this holds of the operations applied
  before the ingestor started, as it does on fresh vectors); and one more line leaves
  every position of the buffer as it was, except the method slot, the status slot, the
  route slot when there are route matchers, and the relabel slots.
\<close>

theorem static_slots_never_written:
  assumes "ingestor_run P F cfg m lines = Inr st"
    and "\<forall>lvs\<in>set (recorded_labels m). static_slots cfg lvs = OrderedLabelValues cfg"
    and "process_line P F cfg st line = Inr st'"
  shows "static_slots cfg (labelValues st) = OrderedLabelValues cfg
       \<and> (\<forall>lvs\<in>set (recorded_labels (metrics st)). static_slots cfg lvs = OrderedLabelValues cfg)
       \<and> (\<forall>j. j \<notin> line_slots cfg \<longrightarrow> labelValues st' ! j = labelValues st ! j)"
proof -
  from assms(1) obtain lvs0 where
    mk: "make_labelValues cfg = Inr lvs0"
    and run: "line_loop P F cfg \<lparr>labelValues = lvs0, metrics = m, stdout = []\<rparr> lines = Inr st"
    by (auto simp: ingestor_run_eq_Inr)
  have inv: "static_slots cfg (labelValues st) = OrderedLabelValues cfg
       \<and> (\<forall>lvs\<in>set (recorded_labels (metrics st)). static_slots cfg lvs = OrderedLabelValues cfg)"
    using assms(2) static_slots_make_labelValues [OF mk]
    by (intro line_loop_invariant [OF run]) (simp_all add: static_slots_resolve_labels)
  have "labelValues st' ! j = labelValues st ! j" if "j \<notin> line_slots cfg" for j
    using assms(3) that by (auto simp: process_line_eq_Inr resolve_labels_frame)
  with inv show ?thesis by blast
qed


theorem static_slots_never_written_witness:
  "ingestor_run (table_parser example_lines) table_float shop_cfg (fresh_metrics shop_cfg)
       [''line with request''] = Inr (example_state shop_cfg [''line with request''])
   \<and> recorded_labels (fresh_metrics shop_cfg) = []
   \<and> process_line (table_parser example_lines) table_float shop_cfg
         (example_state shop_cfg [''line with request'']) ''line without request''
       = Inr (example_state shop_cfg [''line with request'', ''line without request''])
   \<and> static_slots shop_cfg (labelValues (example_state shop_cfg [''line with request''])) = [''shop'']
   \<and> static_slots shop_cfg [''GET'', ''200'', ''^/api'', ''shop'', ''other'', ''a'', []] = [''shop'']
   \<and> labelValues (example_state shop_cfg [''line with request'', ''line without request'']) ! 3
       = labelValues (example_state shop_cfg [''line with request'']) ! 3"
proof -
  have h1: "ingestor_run (table_parser example_lines) table_float shop_cfg (fresh_metrics shop_cfg)
       [''line with request''] = Inr (example_state shop_cfg [''line with request''])"
    by code_simp
  have e: "recorded_labels (fresh_metrics shop_cfg) = []"
    using Init_eq_Inr [OF Init_fresh_metrics] by blast
  then have h2: "\<forall>lvs\<in>set (recorded_labels (fresh_metrics shop_cfg)).
                   static_slots shop_cfg lvs = OrderedLabelValues shop_cfg"
    by simp
  have h3: "process_line (table_parser example_lines) table_float shop_cfg
         (example_state shop_cfg [''line with request'']) ''line without request''
       = Inr (example_state shop_cfg [''line with request'', ''line without request''])"
    by code_simp
  have r: "[''GET'', ''200'', ''^/api'', ''shop'', ''other'', ''a'', []]
             \<in> set (recorded_labels (metrics (example_state shop_cfg [''line with request''])))"
    by code_simp
  have s: "3 \<notin> line_slots shop_cfg"
    by (simp add: line_slots_def relabelLabelOffset_def intrinsicLabelCount_def HasRouteMatchers_def
          shop_cfg_def)
  have v: "OrderedLabelValues shop_cfg = [''shop'']"
    by (simp add: shop_cfg_def)
  show ?thesis
    using h1 e h3 r s static_slots_never_written [OF h1 h2 h3] unfolding v by blast
qed

section \<open>The arity of the label vector\<close>

text \<open>
  C4. For every namespace configuration with as many static label names as static label
  values: each of the six vectors is created with \<open>totalLabelCount\<close> label names; the
  label buffer is made with that length before the first line; it has that length in
  every state the ingestor reaches, as do the label values of every operation applied to
  the vectors; and every position a line may write lies within that length.
\<close>

theorem label_vector_arity_fixed:
  assumes "length (OrderedLabelNames cfg) = length (OrderedLabelValues cfg)"
    and "Init MustCompile cfg0 = Inr (cfg, m)"
    and "ingestor_run P F cfg m lines = Inr st"
  shows "map (length \<circ> vecLabels)
           [countTotal m, bytesTotal m, upstreamSeconds m, upstreamSecondsHist m,
            responseSeconds m, responseSecondsHist m] = replicate 6 (totalLabelCount cfg)
       \<and> (\<exists>lvs0. make_labelValues cfg = Inr lvs0 \<and> length lvs0 = totalLabelCount cfg)
       \<and> length (labelValues st) = totalLabelCount cfg
       \<and> (\<forall>lvs\<in>set (recorded_labels (metrics st)). length lvs = totalLabelCount cfg)
       \<and> line_slots cfg \<subseteq> {..<totalLabelCount cfg}"
proof -
  have n: "length (init_labels cfg) = totalLabelCount cfg"
    using assms(1) by (simp add: init_labels_eq totalLabelCount_def intrinsicLabelCount_def)
  note i = Init_eq_Inr [OF assms(2)]
  have a: "map (length \<circ> vecLabels)
           [countTotal m, bytesTotal m, upstreamSeconds m, upstreamSecondsHist m,
            responseSeconds m, responseSecondsHist m] = replicate 6 (totalLabelCount cfg)"
    using i n by (simp add: numeral_eq_Suc)
  from assms(3) obtain lvs0 where
    mk: "make_labelValues cfg = Inr lvs0"
    and run: "line_loop P F cfg \<lparr>labelValues = lvs0, metrics = m, stdout = []\<rparr> lines = Inr st"
    by (auto simp: ingestor_run_eq_Inr)
  have b: "\<exists>lvs0. make_labelValues cfg = Inr lvs0 \<and> length lvs0 = totalLabelCount cfg"
    using mk length_make_labelValues [OF mk] by blast
  have c: "length (labelValues st) = totalLabelCount cfg
       \<and> (\<forall>lvs\<in>set (recorded_labels (metrics st)). length lvs = totalLabelCount cfg)"
    using i length_make_labelValues [OF mk]
    by (intro line_loop_invariant [OF run]) (simp_all add: resolve_labels_length)
  from a b c line_slots_bound show ?thesis by blast
qed


theorem label_vector_arity_fixed_witness:
  "length (OrderedLabelNames shop_cfg) = length (OrderedLabelValues shop_cfg)
   \<and> Init Inr shop_cfg = Inr (shop_cfg, fresh_metrics shop_cfg)
   \<and> ingestor_run (table_parser example_lines) table_float shop_cfg (fresh_metrics shop_cfg)
         [''line with request'', ''line without request'']
       = Inr (example_state shop_cfg [''line with request'', ''line without request''])
   \<and> totalLabelCount shop_cfg = 7
   \<and> map (length \<circ> vecLabels)
         [countTotal (fresh_metrics shop_cfg), bytesTotal (fresh_metrics shop_cfg),
          upstreamSeconds (fresh_metrics shop_cfg), upstreamSecondsHist (fresh_metrics shop_cfg),
          responseSeconds (fresh_metrics shop_cfg), responseSecondsHist (fresh_metrics shop_cfg)]
       = replicate 6 7
   \<and> length (labelValues (example_state shop_cfg [''line with request'', ''line without request''])) = 7
   \<and> length [''UNKNOWN'', ''404'', ''^/api'', ''shop'', [], [], []] = 7"
proof -
  have h1: "length (OrderedLabelNames shop_cfg) = length (OrderedLabelValues shop_cfg)"
    by (simp add: shop_cfg_def)
  have h2: "Init Inr shop_cfg = Inr (shop_cfg, fresh_metrics shop_cfg)"
    by (rule Init_fresh_metrics)
  have h3: "ingestor_run (table_parser example_lines) table_float shop_cfg (fresh_metrics shop_cfg)
         [''line with request'', ''line without request'']
       = Inr (example_state shop_cfg [''line with request'', ''line without request''])"
    by code_simp
  have n: "totalLabelCount shop_cfg = 7"
    by code_simp
  show ?thesis
    using h1 h2 h3 n label_vector_arity_fixed [OF h1 h2 h3] unfolding n by simp
qed

section \<open>Lines that do not parse\<close>

text \<open>
  C8. For every line on which the parser gives an error, processing the line does not
  panic and changes neither the vectors nor the label buffer: it prints the message, and
  the loop goes on with the next line.
\<close>

theorem parse_error_skips_line:
  assumes "P line = Inl err"
  shows "\<exists>st'. process_line P F cfg st line = Inr st'
           \<and> metrics st' = metrics st
           \<and> labelValues st' = labelValues st
           \<and> stdout st' = stdout st @ [parse_error_message line err]
           \<and> line_loop P F cfg st (line # rest) = line_loop P F cfg st' rest"
  using assms by (simp add: process_line_def)

theorem parse_error_skips_line_witness:
  "table_parser example_lines ''garbage'' = Inl ''does not match''
   \<and> (\<exists>st'. process_line (table_parser example_lines) table_float routes_cfg
               (example_state routes_cfg [''line with request'']) ''garbage'' = Inr st'
          \<and> metrics st' = metrics (example_state routes_cfg [''line with request''])
          \<and> labelValues st' = [''GET'', ''200'', ''^/api'']
          \<and> line_loop (table_parser example_lines) table_float routes_cfg
               (example_state routes_cfg [''line with request'']) [''garbage'', ''line with request'']
             = line_loop (table_parser example_lines) table_float routes_cfg st' [''line with request''])"
proof -
  have h: "table_parser example_lines ''garbage'' = Inl ''does not match''"
    by (simp add: table_parser_def example_lines_def)
  have l: "labelValues (example_state routes_cfg [''line with request'']) = [''GET'', ''200'', ''^/api'']"
    by code_simp
  show ?thesis
    using h parse_error_skips_line [of "table_parser example_lines" "''garbage''" "''does not match''"
        table_float routes_cfg "example_state routes_cfg [''line with request'']"
        "[''line with request'']", OF h]
    unfolding l by blast
qed

section \<open>Dispatch\<close>



section \<open>Lines without a request field, and requests of one token\<close>


text \<open>
  C2 says that a line whose request field has fewer than two tokens is processed without
  a crash when there are route rules. The source reads \<^verbatim>\<open>f[1]\<close> in the route loop
  without a check of the length of \<open>f\<close>: the request \<open>-\<close> panics, alone and between two
  well-formed lines.
\<close>

theorem one_token_request_panics:
  "Field one_token_entry ''request'' = Some ''-''
   \<and> length (Split ''-'' CHR '' '') < 2
   \<and> HasRouteMatchers routes_cfg
   \<and> example_run routes_cfg [''line with one token''] = Inl IndexOutOfRange
   \<and> example_run routes_cfg [''line with request'', ''line with one token'', ''line with request'']
      = Inl IndexOutOfRange"
  by code_simp

end
